theory Spec2Isabelle
  imports Complex_Main "HOL-Library.Word" "HOL-Library.Sublist"
begin

section \<open>JavaScript strings\<close>

text \<open>
  A JavaScript string is a sequence of 16-bit code units; \<open>length\<close> counts code units.
  String literals of the source are ASCII, so \<open>str\<close> maps each character to the code
  unit of the same value.
\<close>

type_synonym js_string = "16 word list"

definition str :: "string \<Rightarrow> js_string" where
  "str s = map of_char s"

text \<open>
  ECMAScript's WhiteSpace and LineTerminator productions. Both \<open>String.prototype.trim\<close>
  and the regular expression class \<open>\s\<close> are defined as the union of the two.
\<close>

definition is_white_space :: "16 word \<Rightarrow> bool" where
  "is_white_space c \<longleftrightarrow>
     c = 0x0009 \<or> c = 0x000B \<or> c = 0x000C \<or> c = 0x0020 \<or> c = 0x00A0 \<or> c = 0xFEFF \<or>
     c = 0x1680 \<or> (0x2000 \<le> c \<and> c \<le> 0x200A) \<or> c = 0x202F \<or> c = 0x205F \<or> c = 0x3000"

definition is_line_terminator :: "16 word \<Rightarrow> bool" where
  "is_line_terminator c \<longleftrightarrow> c = 0x000A \<or> c = 0x000D \<or> c = 0x2028 \<or> c = 0x2029"

definition is_space :: "16 word \<Rightarrow> bool" where
  "is_space c \<longleftrightarrow> is_white_space c \<or> is_line_terminator c"

text \<open>The character class \<open>[.,!?;:]\<close> of the second pattern.\<close>

definition is_punct :: "16 word \<Rightarrow> bool" where
  "is_punct c \<longleftrightarrow>
     c = 0x002E \<or> c = 0x002C \<or> c = 0x0021 \<or> c = 0x003F \<or> c = 0x003B \<or> c = 0x003A"

text \<open>\<open>s.trim()\<close>: strip white space and line terminators from both ends.\<close>

definition trim :: "js_string \<Rightarrow> js_string" where
  "trim s = rev (dropWhile is_space (rev (dropWhile is_space s)))"

text \<open>
  \<open>s.slice(start, end)\<close> and \<open>s.slice(start)\<close> for non-negative arguments (the only
  ones the source passes); indices beyond the end are clamped, as \<open>take\<close> and
  \<open>drop\<close> do.
\<close>

definition slice_range :: "js_string \<Rightarrow> nat \<Rightarrow> nat \<Rightarrow> js_string" where
  "slice_range s start fin = drop start (take fin s)"

definition slice_from :: "js_string \<Rightarrow> nat \<Rightarrow> js_string" where
  "slice_from s start = drop start s"

section \<open>Splitting on a regular expression\<close>

text \<open>
  A regular expression is modelled by its sticky match at the front of the remaining
  input: \<open>None\<close> when it does not match there, otherwise the length of the match and the
  texts of its capture groups. Neither pattern of the source looks behind the match
  position.
\<close>

type_synonym regexp = "js_string \<Rightarrow> (nat \<times> js_string list) option"

text \<open>\<open>/\s+/\<close>: the longest non-empty run of space characters; no capture group.\<close>

definition re_ws :: regexp where
  "re_ws s = (let n = length (takeWhile is_space s) in if n = 0 then None else Some (n, []))"

text \<open>
  \<open>/(\s+|[.,!?;:])/\<close>: the first alternative is tried first; the second matches one
  punctuation character. The single capture group holds the whole match.
\<close>

definition re_sep :: regexp where
  "re_sep s =
     (case re_ws s of
        Some (n, _) \<Rightarrow> Some (n, [take n s])
      | None \<Rightarrow>
          (case s of
             [] \<Rightarrow> None
           | c # _ \<Rightarrow> if is_punct c then Some (1, [[c]]) else None))"

text \<open>
  The loop of \<open>RegExp.prototype[Symbol.split]\<close>. With \<open>p\<close> the start of the current
  fragment and \<open>q\<close> the search position, \<open>cur\<close> is the substring from \<open>p\<close> to \<open>q\<close> and
  the last argument is the input from \<open>q\<close> on. A failed match, or a match that ends at
  \<open>p\<close> (an empty match at \<open>q = p\<close>), advances \<open>q\<close> by one; any other match appends the
  fragment and the captures and restarts at the end of the match. After the loop the
  rest from \<open>p\<close> is appended. The optional limit argument is not passed by the source;
  its default of \<open>2^32 - 1\<close> elements is beyond the number of fragments of any string an
  engine can hold, and is left out.
\<close>

function split_loop :: "regexp \<Rightarrow> js_string \<Rightarrow> js_string \<Rightarrow> js_string list" where
  "split_loop re cur [] = [cur]"
| "split_loop re cur (c # cs) =
     (case re (c # cs) of
        None \<Rightarrow> split_loop re (cur @ [c]) cs
      | Some (n, caps) \<Rightarrow>
          if n = 0 \<and> cur = [] then split_loop re (cur @ [c]) cs
          else cur # caps @ split_loop re [] (drop n (c # cs)))"
  by pat_completeness auto
termination
  by (relation "measures [\<lambda>(re, cur, rest). length rest, \<lambda>(re, cur, rest). length cur]") auto

text \<open>
  \<open>s.split(re)\<close>: on the empty string the result is empty when the pattern matches it
  and holds the empty string otherwise.
\<close>

definition js_split :: "regexp \<Rightarrow> js_string \<Rightarrow> js_string list" where
  "js_split re s =
     (if s = [] then (case re [] of None \<Rightarrow> [[]] | Some _ \<Rightarrow> [])
      else split_loop re [] s)"

section \<open>The in-browser tokenizer (src/src/App.js)\<close>

record token =
  token_id :: nat
  token_text :: js_string

text \<open>
  The two local variables the callbacks of \<open>forEach\<close> update. Ids are JavaScript
  numbers; they count tokens and stay far below \<open>2^53\<close>, where \<open>tokenId++\<close> is exact.
\<close>

record tokenizer_state =
  tokenizedResult :: "token list"
  tokenId :: nat

text \<open>\<open>tokenizedResult.push({ id: tokenId++, text: t })\<close>\<close>

definition push_token :: "js_string \<Rightarrow> tokenizer_state \<Rightarrow> tokenizer_state" where
  "push_token t st =
     \<lparr>tokenizedResult = tokenizedResult st @ [\<lparr>token_id = tokenId st, token_text = t\<rparr>],
      tokenId = tokenId st + 1\<rparr>"

text \<open>
  \<open>Math.ceil(word.length / 2)\<close>. Halving is exact in double arithmetic, so the value
  is the ceiling of the real quotient.
\<close>

definition mid_of :: "js_string \<Rightarrow> nat" where
  "mid_of word = nat \<lceil>real (length word) / 2\<rceil>"

text \<open>The callback of \<open>words.forEach\<close> in the Claude-3 branch.\<close>

definition claude_word :: "js_string \<Rightarrow> tokenizer_state \<Rightarrow> tokenizer_state" where
  "claude_word word st =
     (if length word > 4 then
        let mid = mid_of word in
        push_token (slice_from word mid) (push_token (slice_range word 0 mid) st)
      else push_token word st)"

text \<open>The callback of \<open>parts.forEach\<close> in the other branch.\<close>

definition gpt_part :: "js_string \<Rightarrow> tokenizer_state \<Rightarrow> tokenizer_state" where
  "gpt_part part st = (if trim part \<noteq> [] then push_token part st else st)"

text \<open>The body of the branch taken when \<open>model === "Claude-3"\<close>.\<close>

definition claude3_branch :: "js_string \<Rightarrow> tokenizer_state \<Rightarrow> tokenizer_state" where
  "claude3_branch inputText st =
     (let words = js_split re_ws inputText in fold claude_word words st)"

text \<open>The body of the \<open>else\<close> branch.\<close>

definition gpt_branch :: "js_string \<Rightarrow> tokenizer_state \<Rightarrow> tokenizer_state" where
  "gpt_branch inputText st =
     (let parts = filter (\<lambda>part. length part > 0) (js_split re_sep inputText)
      in fold gpt_part parts st)"

definition tokenizeText :: "js_string \<Rightarrow> js_string \<Rightarrow> token list" where
  "tokenizeText inputText model =
     (if trim inputText = [] then []
      else
        let st0 = \<lparr>tokenizedResult = [], tokenId = 1\<rparr> in
        tokenizedResult
          (if model = str ''Claude-3'' then claude3_branch inputText st0
           else gpt_branch inputText st0))"

section \<open>Values and errors\<close>

text \<open>
  The values \<open>JSON.parse\<close> can produce, and \<open>undefined\<close>. A number is the bit pattern
  of its IEEE 754 double. An object is the list of its own properties, keys unique (as
  \<open>JSON.parse\<close> leaves them); none of them is a function.
\<close>

datatype js_value =
    Undefined
  | Null
  | Boolean bool
  | Number "64 word"
  | String js_string
  | Array "js_value list"
  | Object "(js_string \<times> js_value) list"

datatype js_error =
    TypeError
  | SyntaxError
  | Error js_string

section \<open>The network-backed tokenizer (src/Frontend/App.js)\<close>

text \<open>Truthiness, as \<open>||\<close> tests it: a number is falsy when it is a zero or a NaN.\<close>

definition truthy :: "js_value \<Rightarrow> bool" where
  "truthy v =
     (case v of
        Undefined \<Rightarrow> False
      | Null \<Rightarrow> False
      | Boolean b \<Rightarrow> b
      | Number w \<Rightarrow>
          and w 0x7FFFFFFFFFFFFFFF \<noteq> 0 \<and> and w 0x7FFFFFFFFFFFFFFF \<le> 0x7FF0000000000000
      | String s \<Rightarrow> s \<noteq> []
      | Array _ \<Rightarrow> True
      | Object _ \<Rightarrow> True)"

text \<open>
  \<open>data.tokens\<close>: reading a property of \<open>undefined\<close> or \<open>null\<close> throws; an object
  yields its own property, and every other value (no prototype defines \<open>tokens\<close>)
  yields \<open>undefined\<close>.
\<close>

definition get_tokens :: "js_value \<Rightarrow> js_error + js_value" where
  "get_tokens data =
     (case data of
        Undefined \<Rightarrow> Inl TypeError
      | Null \<Rightarrow> Inl TypeError
      | Object props \<Rightarrow>
          (case map_of props (str ''tokens'') of None \<Rightarrow> Inr Undefined | Some v \<Rightarrow> Inr v)
      | _ \<Rightarrow> Inr Undefined)"

text \<open>
  What the environment answers to the one \<open>fetch\<close>: the promise rejects (no
  connection), or it resolves to a response with its \<open>ok\<close> flag and a body on which
  \<open>response.json()\<close> either rejects (a \<open>SyntaxError\<close> when the body is not JSON) or
  resolves to the parsed value.
\<close>

datatype response_body = BodyRejected js_error | Json js_value

datatype fetch_outcome = FetchRejected | Response bool response_body

text \<open>The \<open>try\<close> block: \<open>Inl\<close> is a value thrown or a promise rejected inside it.\<close>

definition try_block :: "fetch_outcome \<Rightarrow> js_error + js_value" where
  "try_block outcome =
     (case outcome of
        FetchRejected \<Rightarrow> Inl TypeError
      | Response ok body \<Rightarrow>
          if \<not> ok then Inl (Error (str ''Failed to tokenize text''))
          else
            (case body of
               BodyRejected e \<Rightarrow> Inl e
             | Json data \<Rightarrow>
                 (case get_tokens data of
                    Inl e \<Rightarrow> Inl e
                  | Inr tokens \<Rightarrow> Inr (if truthy tokens then tokens else Array []))))"

text \<open>The component state the function writes and the errors it logs.\<close>

record remote_state =
  loading :: bool
  console_errors :: "js_error list"

text \<open>
  The asynchronous \<open>tokenizeText\<close>, as a function of the answer of the environment.
  The first component is how the returned promise settles: \<open>Inr\<close> fulfilled, \<open>Inl\<close>
  rejected. \<open>catch\<close> logs and returns the empty array; \<open>finally\<close> clears \<open>loading\<close>.
\<close>

definition tokenizeText_remote ::
  "js_string \<Rightarrow> js_string \<Rightarrow> fetch_outcome \<Rightarrow> remote_state \<Rightarrow> (js_error + js_value) \<times> remote_state" where
  "tokenizeText_remote inputText model outcome st =
     (if trim inputText = [] then (Inr (Array []), st)
      else
        let st1 = st\<lparr>loading := True\<rparr> in
        (case try_block outcome of
           Inr tokens \<Rightarrow> (Inr tokens, st1\<lparr>loading := False\<rparr>)
         | Inl error \<Rightarrow>
             (Inr (Array []),
              st1\<lparr>console_errors := console_errors st1 @ [error], loading := False\<rparr>)))"

section \<open>The run of the in-browser tokenizer, step by step\<close>

text \<open>
  The definitions above compute the result of \<open>tokenizeText\<close>. The ones of this section
  follow one call as the engine runs it, with everything that could keep the call from
  returning a value written out: \<open>None\<close> is a run that never ends, \<open>Inl\<close> a value
  thrown.
\<close>

text \<open>The substring of \<open>S\<close> from index \<open>from\<close> up to, not including, index \<open>to\<close>.\<close>

definition substring :: "js_string \<Rightarrow> nat \<Rightarrow> nat \<Rightarrow> js_string" where
  "substring S from to = take (to - from) (drop from S)"

text \<open>
  The loop of \<open>RegExp.prototype[Symbol.split]\<close> with its own variables: \<open>S\<close> the string,
  \<open>p\<close> the start of the current fragment, \<open>q\<close> the search position, \<open>A\<close> the array built
  so far. It repeats while \<open>q < size\<close>; \<open>e\<close> is the end of the match, capped at the size.
  Nothing in its text bounds the number of rounds: a match that ends where it started
  moves \<open>p\<close> and \<open>q\<close> to \<open>e = q\<close>, and only the next round, where \<open>e = p\<close>, advances
  \<open>q\<close>.
\<close>

partial_function (option) split_while ::
  "regexp \<Rightarrow> js_string \<Rightarrow> nat \<Rightarrow> nat \<Rightarrow> js_string list \<Rightarrow> js_string list option" where
  "split_while re S p q A =
     (if q < length S then
        (case re (drop q S) of
           None \<Rightarrow> split_while re S p (q + 1) A
         | Some (n, caps) \<Rightarrow>
             let e = min (q + n) (length S) in
             if e = p then split_while re S p (q + 1) A
             else split_while re S e e (A @ [substring S p q] @ caps))
      else Some (A @ [substring S p (length S)]))"

declare split_while.simps [code]

text \<open>\<open>S.split(re)\<close>, with the case of the empty string before the loop.\<close>

definition split_run :: "regexp \<Rightarrow> js_string \<Rightarrow> js_string list option" where
  "split_run re S =
     (if length S = 0 then (case re S of None \<Rightarrow> Some [S] | Some _ \<Rightarrow> Some [])
      else split_while re S 0 0 [])"

text \<open>
  The state of the component in whose scope \<open>tokenizeText\<close> is defined (the four
  \<open>useState\<close> variables of \<open>App\<close>): what a call could read or write besides its
  arguments.
\<close>

record app_state =
  ui_text :: js_string
  ui_selectedModel :: js_string
  ui_showText :: bool
  ui_tokens :: "token list"

text \<open>
  One call of \<open>tokenizeText\<close> in state \<open>ui\<close>. \<open>inputText.trim()\<close> is its first operation:
  on \<open>undefined\<close> and \<open>null\<close> the property access throws, and on any other value that is
  not a string \<open>trim\<close> is not a function and the call throws. \<open>model\<close> is only compared.
  The function body names none of the state variables, so the state is handed back as
  it came.
\<close>

definition tokenizeText_run ::
  "app_state \<Rightarrow> js_value \<Rightarrow> js_string \<Rightarrow> ((js_error + token list) \<times> app_state) option" where
  "tokenizeText_run ui inputText model =
     (case inputText of
        String s \<Rightarrow>
          if trim s = [] then Some (Inr [], ui)
          else
            let st0 = \<lparr>tokenizedResult = [], tokenId = 1\<rparr> in
            if model = str ''Claude-3'' then
              (case split_run re_ws s of
                 None \<Rightarrow> None
               | Some words \<Rightarrow> Some (Inr (tokenizedResult (fold claude_word words st0)), ui))
            else
              (case split_run re_sep s of
                 None \<Rightarrow> None
               | Some fragments \<Rightarrow>
                   let parts = filter (\<lambda>part. length part > 0) fragments in
                   Some (Inr (tokenizedResult (fold gpt_part parts st0)), ui))
      | _ \<Rightarrow> Some (Inl TypeError, ui))"

section \<open>Properties of the building blocks\<close>

lemma tokenizedResult_push_token:
  "tokenizedResult (push_token t st) = tokenizedResult st @ [\<lparr>token_id = tokenId st, token_text = t\<rparr>]"
  by (simp add: push_token_def)

lemma mid_of_div: "mid_of word = (length word + 1) div 2"
proof -
  have "real (length word) / 2 = of_int (int (length word)) / of_int 2"
    by simp
  then have "\<lceil>real (length word) / 2\<rceil> = - (- int (length word) div 2)"
    by (simp only: ceiling_divide_eq_div)
  then show ?thesis
    unfolding mid_of_def by linarith
qed

lemma trim_empty_iff: "trim s = [] \<longleftrightarrow> (\<forall>c\<in>set s. is_space c)"
proof
  assume "trim s = []"
  then have "\<forall>c\<in>set (dropWhile is_space s). is_space c"
    by (simp add: trim_def)
  then have "dropWhile is_space s = []"
    using hd_dropWhile [of is_space s] hd_in_set [of "dropWhile is_space s"] by blast
  then show "\<forall>c\<in>set s. is_space c" by simp
next
  assume "\<forall>c\<in>set s. is_space c"
  then show "trim s = []" by (auto simp: trim_def dest: set_dropWhileD)
qed

lemma punct_not_space: "is_punct c \<Longrightarrow> \<not> is_space c"
  by (auto simp: is_punct_def is_space_def is_white_space_def is_line_terminator_def)

lemma re_ws_Cons:
  "re_ws (c # cs) = (if is_space c then Some (Suc (length (takeWhile is_space cs)), []) else None)"
  by (simp add: re_ws_def)

lemma re_sep_Cons:
  "re_sep (c # cs) =
     (if is_space c then Some (Suc (length (takeWhile is_space cs)), [c # takeWhile is_space cs])
      else if is_punct c then Some (1, [[c]]) else None)"
  by (simp add: re_sep_def re_ws_Cons takeWhile_eq_take [symmetric])

lemma split_loop_ws_Cons:
  "split_loop re_ws cur (c # cs) =
     (if is_space c then cur # split_loop re_ws [] (dropWhile is_space cs)
      else split_loop re_ws (cur @ [c]) cs)"
  by (simp add: re_ws_Cons dropWhile_eq_drop [symmetric])

lemma split_loop_sep_Cons:
  "split_loop re_sep cur (c # cs) =
     (if is_space c then
        cur # (c # takeWhile is_space cs) # split_loop re_sep [] (dropWhile is_space cs)
      else if is_punct c then cur # [c] # split_loop re_sep [] cs
      else split_loop re_sep (cur @ [c]) cs)"
  by (simp add: re_sep_Cons dropWhile_eq_drop [symmetric])

declare split_loop.simps(2) [simp del]

lemma texts_fold_claude_word:
  "map token_text (tokenizedResult (fold claude_word ws st)) =
     map token_text (tokenizedResult st) @
     concat (map (\<lambda>w. if 4 < length w then [slice_range w 0 (mid_of w), slice_from w (mid_of w)] else [w]) ws)"
  by (induction ws arbitrary: st) (simp_all add: claude_word_def tokenizedResult_push_token Let_def)

lemma texts_fold_gpt_part:
  "map token_text (tokenizedResult (fold gpt_part ps st)) =
     map token_text (tokenizedResult st) @ filter (\<lambda>p. trim p \<noteq> []) ps"
  by (induction ps arbitrary: st) (simp_all add: gpt_part_def tokenizedResult_push_token)

lemma ids_push_token:
  assumes "map token_id (tokenizedResult st) = [1..<tokenId st]" and "1 \<le> tokenId st"
  shows "map token_id (tokenizedResult (push_token t st)) = [1..<tokenId (push_token t st)]
    \<and> 1 \<le> tokenId (push_token t st)"
  using assms by (simp add: push_token_def)

lemma ids_fold_claude_word:
  "map token_id (tokenizedResult st) = [1..<tokenId st] \<Longrightarrow> 1 \<le> tokenId st \<Longrightarrow>
   map token_id (tokenizedResult (fold claude_word ws st)) = [1..<tokenId (fold claude_word ws st)]"
proof (induction ws arbitrary: st)
  case Nil
  then show ?case by simp
next
  case (Cons w ws)
  have "map token_id (tokenizedResult (claude_word w st)) = [1..<tokenId (claude_word w st)]
      \<and> 1 \<le> tokenId (claude_word w st)"
    using Cons.prems ids_push_token ids_push_token [THEN conjunct1] ids_push_token [THEN conjunct2]
    by (simp add: claude_word_def Let_def)
  then show ?case using Cons.IH by simp
qed

lemma ids_fold_gpt_part:
  "map token_id (tokenizedResult st) = [1..<tokenId st] \<Longrightarrow> 1 \<le> tokenId st \<Longrightarrow>
   map token_id (tokenizedResult (fold gpt_part ps st)) = [1..<tokenId (fold gpt_part ps st)]"
proof (induction ps arbitrary: st)
  case Nil
  then show ?case by simp
next
  case (Cons p ps)
  have "map token_id (tokenizedResult (gpt_part p st)) = [1..<tokenId (gpt_part p st)]
      \<and> 1 \<le> tokenId (gpt_part p st)"
    using Cons.prems ids_push_token by (simp add: gpt_part_def)
  then show ?case using Cons.IH by simp
qed

lemma ids_from_upt:
  assumes "map token_id ts = [1..<k]"
  shows "map token_id ts = [1..<Suc (length ts)]"
proof -
  have "length ts = k - 1"
    using arg_cong [OF assms, of length] by simp
  then show ?thesis using assms by (cases "k = 0") auto
qed

lemma trim_space_free: "\<forall>c\<in>set cur. \<not> is_space c \<Longrightarrow> trim cur = [] \<longleftrightarrow> cur = []"
  by (cases cur) (auto simp: trim_empty_iff)

lemma filter_not_dropWhile: "filter (\<lambda>c. \<not> P c) (dropWhile P xs) = filter (\<lambda>c. \<not> P c) xs"
  by (induction xs) auto

lemma trim_space_run: "is_space c \<Longrightarrow> trim (c # takeWhile is_space cs) = []"
  by (auto simp: trim_empty_iff dest: set_takeWhileD)

lemma split_loop_sep_content:
  "\<forall>c\<in>set cur. \<not> is_space c \<Longrightarrow>
   concat (filter (\<lambda>p. trim p \<noteq> []) (filter (\<lambda>part. 0 < length part) (split_loop re_sep cur rest)))
     = cur @ filter (\<lambda>c. \<not> is_space c) rest"
proof (induction "length rest" arbitrary: cur rest rule: less_induct)
  case less
  show ?case
  proof (cases rest)
    case Nil
    then show ?thesis using less.prems by (simp add: trim_space_free)
  next
    case (Cons c cs)
    consider (space) "is_space c" | (punct) "\<not> is_space c" "is_punct c"
      | (other) "\<not> is_space c" "\<not> is_punct c" by blast
    then show ?thesis
    proof cases
      case space
      have "length (dropWhile is_space cs) < length rest"
        using Cons length_dropWhile_le [of is_space cs] by simp
      then have "concat (filter (\<lambda>p. trim p \<noteq> []) (filter (\<lambda>part. 0 < length part)
          (split_loop re_sep [] (dropWhile is_space cs)))) = filter (\<lambda>c. \<not> is_space c) cs"
        using less.hyps [of "dropWhile is_space cs" "[]"] by (simp add: filter_not_dropWhile)
      then show ?thesis
        using Cons space less.prems
        by (simp add: split_loop_sep_Cons trim_space_run trim_space_free)
    next
      case punct
      have "concat (filter (\<lambda>p. trim p \<noteq> []) (filter (\<lambda>part. 0 < length part)
          (split_loop re_sep [] cs))) = filter (\<lambda>c. \<not> is_space c) cs"
        using less.hyps [of cs "[]"] Cons by simp
      then show ?thesis
        using Cons punct less.prems
        by (simp add: split_loop_sep_Cons trim_space_free)
    next
      case other
      have "concat (filter (\<lambda>p. trim p \<noteq> []) (filter (\<lambda>part. 0 < length part)
          (split_loop re_sep (cur @ [c]) cs))) = (cur @ [c]) @ filter (\<lambda>c. \<not> is_space c) cs"
        using less.hyps [of cs "cur @ [c]"] Cons other less.prems by simp
      then show ?thesis
        using Cons other by (simp add: split_loop_sep_Cons)
    qed
  qed
qed

lemma split_loop_sublist:
  assumes "\<And>s n caps. re s = Some (n, caps) \<Longrightarrow> \<forall>x\<in>set caps. sublist x s"
  shows "\<forall>x\<in>set (split_loop re cur rest). sublist x (cur @ rest)"
  using assms
proof (induction re cur rest rule: split_loop.induct)
  case (1 re cur)
  then show ?case by simp
next
  case (2 re cur c cs)
  note caps = "2.prems"
  show ?case
  proof (cases "re (c # cs)")
    case None
    then show ?thesis using "2.IH"(1) [OF None caps] by (simp add: split_loop.simps(2))
  next
    case (Some a)
    obtain n cps where a: "a = (n, cps)" by (cases a)
    show ?thesis
    proof (cases "n = 0 \<and> cur = []")
      case True
      then show ?thesis
        using "2.IH"(2) [OF Some a [symmetric] True caps] Some a by (simp add: split_loop.simps(2))
    next
      case False
      have c1: "sublist cur (cur @ c # cs)" by simp
      have "\<forall>x\<in>set cps. sublist x (c # cs)"
        using caps [of "c # cs" n cps] Some a by simp
      then have c2: "\<forall>x\<in>set cps. sublist x (cur @ c # cs)"
        using sublist_order.order.trans [OF _ sublist_append_leftI] by blast
      have "\<forall>x\<in>set (split_loop re [] (drop n (c # cs))). sublist x (drop n (c # cs))"
        using "2.IH"(3) [OF Some a [symmetric] False caps] by simp
      then have "\<forall>x\<in>set (split_loop re [] (drop n (c # cs))). sublist x (c # cs)"
        using sublist_order.order.trans [OF _ sublist_drop] by blast
      then have c3: "\<forall>x\<in>set (split_loop re [] (drop n (c # cs))). sublist x (cur @ c # cs)"
        using sublist_order.order.trans [OF _ sublist_append_leftI] by blast
      have "split_loop re cur (c # cs) = cur # cps @ split_loop re [] (drop n (c # cs))"
        using Some a False by (simp add: split_loop.simps(2))
      then show ?thesis using c1 c2 c3 by auto
    qed
  qed
qed

lemma re_ws_caps: "re_ws s = Some (n, caps) \<Longrightarrow> \<forall>x\<in>set caps. sublist x s"
  by (auto simp: re_ws_def Let_def split: if_splits)

lemma re_sep_caps: "re_sep s = Some (n, caps) \<Longrightarrow> \<forall>x\<in>set caps. sublist x s"
  by (auto simp: re_sep_def re_ws_def Let_def split: if_splits list.splits option.splits)

lemma js_split_sublist:
  assumes "\<And>s n caps. re s = Some (n, caps) \<Longrightarrow> \<forall>x\<in>set caps. sublist x s"
  shows "\<forall>x\<in>set (js_split re s). sublist x s"
  using split_loop_sublist [of re "[]" s, OF assms]
  by (auto simp: js_split_def split: option.splits)

lemma split_loop_ws_trailing:
  "rest \<noteq> [] \<Longrightarrow> is_space (last rest) \<Longrightarrow> [] \<in> set (split_loop re_ws cur rest)"
proof (induction "length rest" arbitrary: cur rest rule: less_induct)
  case less
  obtain c cs where rest: "rest = c # cs" using less.prems(1) by (cases rest) auto
  show ?case
  proof (cases "is_space c")
    case True
    show ?thesis
    proof (cases "dropWhile is_space cs = []")
      case d: True
      then show ?thesis using rest True by (simp add: split_loop_ws_Cons del: dropWhile_eq_Nil_conv)
    next
      case d: False
      then have "cs \<noteq> []" by auto
      have "last (dropWhile is_space cs) = last cs"
        using d by (metis last_appendR takeWhile_dropWhile_id)
      then have "is_space (last (dropWhile is_space cs))"
        using less.prems(2) rest \<open>cs \<noteq> []\<close> by simp
      moreover have "length (dropWhile is_space cs) < length rest"
        using rest length_dropWhile_le [of is_space cs] by simp
      ultimately have "[] \<in> set (split_loop re_ws [] (dropWhile is_space cs))"
        using less.hyps d by blast
      then show ?thesis using rest True by (simp add: split_loop_ws_Cons)
    qed
  next
    case False
    then have "cs \<noteq> []" using less.prems(2) rest by auto
    then have "[] \<in> set (split_loop re_ws (cur @ [c]) cs)"
      using less.hyps [of cs "cur @ [c]"] less.prems(2) rest by simp
    then show ?thesis using rest False by (simp add: split_loop_ws_Cons)
  qed
qed

lemma substring_snoc:
  "p \<le> q \<Longrightarrow> q < length S \<Longrightarrow> substring S p (Suc q) = substring S p q @ [S ! q]"
  by (simp add: substring_def take_Suc_conv_app_nth Suc_diff_le)

lemma substring_empty_iff:
  "p \<le> q \<Longrightarrow> q < length S \<Longrightarrow> substring S p q = [] \<longleftrightarrow> q = p"
  by (auto simp: substring_def)

lemma split_while_split_loop:
  "p \<le> q \<Longrightarrow> q \<le> length S \<Longrightarrow>
   split_while re S p q A = Some (A @ split_loop re (substring S p q) (drop q S))"
proof (induction "2 * (length S - q) + (if p < q then 1 else 0)" arbitrary: p q A rule: less_induct)
  case less
  show ?case
  proof (cases "q < length S")
    case False
    then have "q = length S" using less.prems by simp
    then show ?thesis
      by (subst split_while.simps) simp
  next
    case True
    then have d: "drop q S = S ! q # drop (Suc q) S"
      by (simp add: Cons_nth_drop_Suc)
    have "split_while re S p (q + 1) A =
        Some (A @ split_loop re (substring S p (q + 1)) (drop (q + 1) S))"
    proof (rule less.hyps)
      show "2 * (length S - (q + 1)) + (if p < q + 1 then 1 else 0)
          < 2 * (length S - q) + (if p < q then 1 else 0)"
      proof -
        have "length S - (q + 1) < length S - q" using True by arith
        then show ?thesis using less.prems by simp
      qed
      show "p \<le> q + 1" using less.prems by simp
      show "q + 1 \<le> length S" using True by simp
    qed
    then have adv: "split_while re S p (q + 1) A =
        Some (A @ split_loop re (substring S p q @ [S ! q]) (drop (Suc q) S))"
      using less.prems True by (simp add: substring_snoc)
    show ?thesis
    proof (cases "re (drop q S)")
      case None
      then show ?thesis
        using True adv d by (subst split_while.simps) (simp add: split_loop.simps(2))
    next
      case (Some a)
      obtain n caps where a: "a = (n, caps)" by (cases a)
      define e where "e = min (q + n) (length S)"
      have ep: "e = p \<longleftrightarrow> n = 0 \<and> substring S p q = []"
        using less.prems True by (auto simp: e_def substring_empty_iff min_def)
      have step: "split_while re S p q A =
          (if e = p then split_while re S p (q + 1) A
           else split_while re S e e (A @ [substring S p q] @ caps))"
        using True Some a by (subst split_while.simps) (simp add: e_def Let_def)
      show ?thesis
      proof (cases "e = p")
        case ep': True
        have "split_loop re (substring S p q) (drop q S) =
            split_loop re (substring S p q @ [S ! q]) (drop (Suc q) S)"
          using d Some a ep ep' by (simp add: split_loop.simps(2))
        then show ?thesis
          using step ep' adv by simp
      next
        case ne: False
        have "q \<le> e" "e \<le> length S" using True by (simp_all add: e_def)
        have rec: "split_while re S e e (A @ [substring S p q] @ caps) =
            Some ((A @ [substring S p q] @ caps) @ split_loop re (substring S e e) (drop e S))"
        proof (rule less.hyps)
          show "2 * (length S - e) + (if e < e then 1 else 0)
              < 2 * (length S - q) + (if p < q then 1 else 0)"
          proof (cases "e = q")
            case True
            then have "p < q" using ne less.prems by simp
            then show ?thesis using True by simp
          next
            case False
            then have "q < e" using \<open>q \<le> e\<close> by simp
            then have "length S - e < length S - q" using \<open>e \<le> length S\<close> True by arith
            then show ?thesis by simp
          qed
          show "e \<le> e" by simp
          show "e \<le> length S" by fact
        qed
        have de: "drop e S = drop n (drop q S)"
          by (simp add: e_def min_def add.commute)
        have "split_loop re (substring S p q) (drop q S) =
            substring S p q # caps @ split_loop re [] (drop n (drop q S))"
          using d Some a ne ep by (simp add: split_loop.simps(2))
        then show ?thesis
          using step ne rec de by (simp add: substring_def)
      qed
    qed
  qed
qed

lemma split_run_js_split: "split_run re S = Some (js_split re S)"
  using split_while_split_loop [of 0 0 S re "[]"]
  by (simp add: split_run_def js_split_def substring_def split: option.splits)

lemma tokenizeText_run_not_string:
  "tokenizeText_run ui Undefined model = Some (Inl TypeError, ui)"
  "tokenizeText_run ui Null model = Some (Inl TypeError, ui)"
  "tokenizeText_run ui (Number w) model = Some (Inl TypeError, ui)"
  by (simp_all add: tokenizeText_run_def)

lemmas space_defs = is_space_def is_white_space_def is_line_terminator_def is_punct_def

section \<open>Properties of the specification\<close>

text \<open>
  C1. The Claude-3 branch turns the words of \<open>inputText.split(/\s+/)\<close> into tokens word
  after word: a word of at most 4 code units gives one token, the word itself; a longer
  word gives two tokens, cut at the ceiling of half its length, and the two pieces put
  together are the word. The branch runs, and its tokens are the result of
  \<open>tokenizeText\<close>, when the trimmed input is not empty.
\<close>

theorem claude3_word_tokens:
  "map token_text (tokenizedResult (claude3_branch inputText \<lparr>tokenizedResult = [], tokenId = 1\<rparr>)) =
      concat (map (\<lambda>word.
          if length word \<le> 4 then [word]
          else [take (nat \<lceil>real (length word) / 2\<rceil>) word, drop (nat \<lceil>real (length word) / 2\<rceil>) word])
        (js_split re_ws inputText))
    \<and> (trim inputText \<noteq> [] \<longrightarrow>
         tokenizeText inputText (str ''Claude-3'') =
           tokenizedResult (claude3_branch inputText \<lparr>tokenizedResult = [], tokenId = 1\<rparr>))
    \<and> (\<forall>word. take (nat \<lceil>real (length word) / 2\<rceil>) word @ drop (nat \<lceil>real (length word) / 2\<rceil>) word = word)"
proof -
  have "(\<lambda>w. if 4 < length w then [slice_range w 0 (mid_of w), slice_from w (mid_of w)] else [w]) =
      (\<lambda>word. if length word \<le> 4 then [word]
          else [take (nat \<lceil>real (length word) / 2\<rceil>) word, drop (nat \<lceil>real (length word) / 2\<rceil>) word])"
    by (auto simp: fun_eq_iff slice_range_def slice_from_def mid_of_def)
  then have "map token_text (tokenizedResult (claude3_branch inputText \<lparr>tokenizedResult = [], tokenId = 1\<rparr>)) =
      concat (map (\<lambda>word.
          if length word \<le> 4 then [word]
          else [take (nat \<lceil>real (length word) / 2\<rceil>) word, drop (nat \<lceil>real (length word) / 2\<rceil>) word])
        (js_split re_ws inputText))"
    by (simp add: claude3_branch_def texts_fold_claude_word)
  moreover have "trim inputText \<noteq> [] \<longrightarrow>
      tokenizeText inputText (str ''Claude-3'') =
        tokenizedResult (claude3_branch inputText \<lparr>tokenizedResult = [], tokenId = 1\<rparr>)"
    by (simp add: tokenizeText_def)
  ultimately show ?thesis by simp
qed

theorem claude3_word_tokens_witness:
  "trim (str ''Hi there'') \<noteq> [] \<and>
   js_split re_ws (str ''Hi there'') = [str ''Hi'', str ''there''] \<and>
   map token_text (tokenizeText (str ''Hi there'') (str ''Claude-3'')) =
     [str ''Hi'', str ''the'', str ''re'']"
proof -
  have t: "trim (str ''Hi there'') \<noteq> []"
    by (simp add: str_def trim_def space_defs)
  have w: "js_split re_ws (str ''Hi there'') = [str ''Hi'', str ''there'']"
    by (simp add: str_def js_split_def split_loop_ws_Cons space_defs)
  show ?thesis
    using claude3_word_tokens [of "str ''Hi there''"] t by (simp add: w) (simp add: str_def)
qed

text \<open>
  C2. For a model other than Claude-3, the texts of the tokens, concatenated in order,
  are the input with every space character (white space or line terminator) removed.
\<close>

theorem gpt_tokens_concat:
  assumes "model \<noteq> str ''Claude-3''"
  shows "concat (map token_text (tokenizeText inputText model)) = filter (\<lambda>c. \<not> is_space c) inputText"
proof (cases "trim inputText = []")
  case True
  then have "filter (\<lambda>c. \<not> is_space c) inputText = []"
    by (simp add: trim_empty_iff)
  then show ?thesis using True by (simp add: tokenizeText_def claude3_branch_def gpt_branch_def)
next
  case False
  then have ne: "inputText \<noteq> []" by (auto simp: trim_def)
  have "map token_text (tokenizeText inputText model) =
      filter (\<lambda>p. trim p \<noteq> []) (filter (\<lambda>part. 0 < length part) (split_loop re_sep [] inputText))"
    using False assms ne by (simp add: tokenizeText_def claude3_branch_def gpt_branch_def texts_fold_gpt_part js_split_def)
  then show ?thesis
    using split_loop_sep_content [of "[]" inputText] by simp
qed
theorem gpt_tokens_concat_witness:
  "str ''GPT-4'' \<noteq> str ''Claude-3'' \<and>
   concat (map token_text (tokenizeText (str ''Hi, you?'') (str ''GPT-4''))) = str ''Hi,you?''"
proof -
  have m: "str ''GPT-4'' \<noteq> str ''Claude-3''"
    by (simp add: str_def)
  show ?thesis
    using gpt_tokens_concat [OF m, of "str ''Hi, you?''"] m
    by (simp add: str_def space_defs)
qed

text \<open>
  C3. For every input and model, the ids of the \<open>N\<close> tokens produced are \<open>1, 2, ..., N\<close>
  in output order.
\<close>

theorem token_ids_sequential: "map token_id (tokenizeText inputText model) = [1..<Suc (length (tokenizeText inputText model))]"
proof (cases "trim inputText = []")
  case True
  then show ?thesis by (simp add: tokenizeText_def claude3_branch_def gpt_branch_def)
next
  case False
  show ?thesis
  proof (cases "model = str ''Claude-3''")
    case True
    have "map token_id (tokenizeText inputText model) =
        [1..<tokenId (fold claude_word (js_split re_ws inputText) \<lparr>tokenizedResult = [], tokenId = 1\<rparr>)]"
      using False True by (simp add: tokenizeText_def claude3_branch_def gpt_branch_def ids_fold_claude_word)
    then show ?thesis by (rule ids_from_upt)
  next
    case m: False
    have "map token_id (tokenizeText inputText model) =
        [1..<tokenId (fold gpt_part (filter (\<lambda>part. 0 < length part) (js_split re_sep inputText))
          \<lparr>tokenizedResult = [], tokenId = 1\<rparr>)]"
      using False m by (simp add: tokenizeText_def claude3_branch_def gpt_branch_def ids_fold_gpt_part)
    then show ?thesis by (rule ids_from_upt)
  qed
qed
theorem token_ids_sequential_witness:
  "length (tokenizeText (str ''Hi there'') (str ''Claude-3'')) = 3 \<and>
   map token_id (tokenizeText (str ''Hi there'') (str ''Claude-3'')) = [1, 2, 3]"
proof -
  have "length (map token_text (tokenizeText (str ''Hi there'') (str ''Claude-3''))) = 3"
    by (simp add: tokenizeText_def claude3_branch_def texts_fold_claude_word js_split_def
        del: length_map)
      (simp add: str_def split_loop_ws_Cons trim_def space_defs)
  then have n: "length (tokenizeText (str ''Hi there'') (str ''Claude-3'')) = 3"
    by simp
  show ?thesis
    using token_ids_sequential [of "str ''Hi there''" "str ''Claude-3''"] n
    by (simp add: upt_rec numeral_3_eq_3)
qed

text \<open>
  C4. An input whose trim is empty (the empty string, or space characters only) gives
  no tokens, whatever the model.
\<close>

theorem empty_input_no_tokens:
  "trim inputText = [] \<Longrightarrow> tokenizeText inputText model = []"
  by (simp add: tokenizeText_def claude3_branch_def gpt_branch_def)

theorem empty_input_no_tokens_witness:
  "trim (str ''   '') = [] \<and> tokenizeText (str ''   '') (str ''Claude-3'') = [] \<and>
   trim [] = [] \<and> tokenizeText [] (str ''GPT-4'') = []"
proof -
  have t: "trim (str ''   '') = []"
    by (simp add: str_def trim_def space_defs)
  have e: "trim [] = []"
    by (simp add: trim_def)
  show ?thesis
    using empty_input_no_tokens [OF t, of "str ''Claude-3''"]
      empty_input_no_tokens [OF e, of "str ''GPT-4''"] t e
    by simp
qed

text \<open>
  C5. For a model other than Claude-3, no token has an empty text and no token consists
  of space characters only: empty fragments and blank fragments of the split are dropped.
\<close>

theorem gpt_tokens_not_blank:
  assumes "model \<noteq> str ''Claude-3''"
  shows "\<forall>t\<in>set (tokenizeText inputText model).
      token_text t \<noteq> [] \<and> trim (token_text t) \<noteq> [] \<and> \<not> (\<forall>c\<in>set (token_text t). is_space c)"
proof
  fix t
  assume t: "t \<in> set (tokenizeText inputText model)"
  then have ne: "trim inputText \<noteq> []"
    by (auto simp: tokenizeText_def claude3_branch_def gpt_branch_def split: if_splits)
  have "map token_text (tokenizeText inputText model) =
      filter (\<lambda>p. trim p \<noteq> []) (filter (\<lambda>part. 0 < length part) (js_split re_sep inputText))"
    using assms ne by (simp add: tokenizeText_def claude3_branch_def gpt_branch_def texts_fold_gpt_part)
  moreover have "token_text t \<in> set (map token_text (tokenizeText inputText model))"
    using t by simp
  ultimately have "token_text t \<noteq> [] \<and> trim (token_text t) \<noteq> []"
    by simp
  then show "token_text t \<noteq> [] \<and> trim (token_text t) \<noteq> [] \<and> \<not> (\<forall>c\<in>set (token_text t). is_space c)"
    by (simp add: trim_empty_iff)
qed

theorem gpt_tokens_not_blank_witness:
  "str ''GPT-4'' \<noteq> str ''Claude-3'' \<and>
   map token_text (tokenizeText (str ''Hi, you?'') (str ''GPT-4'')) =
     [str ''Hi'', str '','', str ''you'', str ''?''] \<and>
   list_all (\<lambda>t. token_text t \<noteq> [] \<and> trim (token_text t) \<noteq> [] \<and>
       \<not> list_all is_space (token_text t))
     (tokenizeText (str ''Hi, you?'') (str ''GPT-4''))"
proof -
  have m: "str ''GPT-4'' \<noteq> str ''Claude-3''"
    by (simp add: str_def)
  have v: "map token_text (tokenizeText (str ''Hi, you?'') (str ''GPT-4'')) =
      [str ''Hi'', str '','', str ''you'', str ''?'']"
    using m
    by (simp add: tokenizeText_def claude3_branch_def gpt_branch_def texts_fold_gpt_part js_split_def)
      (simp add: str_def split_loop_sep_Cons trim_def space_defs)
  show ?thesis
    using gpt_tokens_not_blank [OF m, of "str ''Hi, you?''"] m v
    by (simp add: list_all_iff)
qed

text \<open>
  C6. For every input and model, the text of every token is a contiguous substring of
  the input.
\<close>

theorem token_text_sublist:
  "\<forall>t\<in>set (tokenizeText inputText model). sublist (token_text t) inputText"
proof (cases "trim inputText = []")
  case True
  then show ?thesis by (simp add: tokenizeText_def claude3_branch_def gpt_branch_def)
next
  case False
  show ?thesis
  proof (cases "model = str ''Claude-3''")
    case True
    have words: "\<forall>w\<in>set (js_split re_ws inputText). sublist w inputText"
      by (rule js_split_sublist) (rule re_ws_caps)
    have "set (map token_text (tokenizeText inputText model)) \<subseteq>
        (\<Union>w\<in>set (js_split re_ws inputText). {w, slice_range w 0 (mid_of w), slice_from w (mid_of w)})"
      using False True by (auto simp: tokenizeText_def claude3_branch_def gpt_branch_def texts_fold_claude_word split: if_splits)
    moreover have "sublist (slice_range w 0 n) w" "sublist (slice_from w n) w" for w n
      by (simp_all add: slice_range_def slice_from_def)
    ultimately have "\<forall>x\<in>set (map token_text (tokenizeText inputText model)). sublist x inputText"
      using words by (blast intro: sublist_order.order.trans)
    then show ?thesis by simp
  next
    case m: False
    have parts: "\<forall>w\<in>set (js_split re_sep inputText). sublist w inputText"
      by (rule js_split_sublist) (rule re_sep_caps)
    have "set (map token_text (tokenizeText inputText model)) \<subseteq> set (js_split re_sep inputText)"
      using False m by (auto simp: tokenizeText_def claude3_branch_def gpt_branch_def texts_fold_gpt_part)
    then have "\<forall>x\<in>set (map token_text (tokenizeText inputText model)). sublist x inputText"
      using parts by blast
    then show ?thesis by simp
  qed
qed
theorem token_text_sublist_witness:
  "map token_text (tokenizeText (str ''Hi there'') (str ''Claude-3'')) =
     [str ''Hi'', str ''the'', str ''re''] \<and>
   list_all (\<lambda>t. sublist (token_text t) (str ''Hi there''))
     (tokenizeText (str ''Hi there'') (str ''Claude-3''))"
proof -
  have v: "map token_text (tokenizeText (str ''Hi there'') (str ''Claude-3'')) =
      [str ''Hi'', str ''the'', str ''re'']"
    by (simp add: tokenizeText_def claude3_branch_def gpt_branch_def texts_fold_claude_word js_split_def mid_of_div slice_range_def slice_from_def)
      (simp add: str_def split_loop_ws_Cons trim_def space_defs mid_of_div slice_range_def slice_from_def)
  show ?thesis
    using token_text_sublist [of "str ''Hi there''" "str ''Claude-3''"] v
    by (simp add: list_all_iff)
qed

text \<open>
  C7. A call of the in-browser \<open>tokenizeText\<close> on a string and a model name ends (the
  loop inside \<open>split\<close> stops on every input), throws nothing, and returns the tokens
  computed by \<open>tokenizeText\<close> above. It leaves the state of the component as it was, and
  its result is the same from whatever state it is called: the two arguments alone
  decide it.
\<close>

theorem tokenizeText_total_pure:
  "tokenizeText_run ui (String inputText) model = Some (Inr (tokenizeText inputText model), ui) \<and>
   map_option fst (tokenizeText_run ui' (String inputText) model) =
     map_option fst (tokenizeText_run ui (String inputText) model)"
proof -
  have "tokenizeText_run u (String inputText) model = Some (Inr (tokenizeText inputText model), u)"
    for u
    by (simp add: tokenizeText_run_def tokenizeText_def claude3_branch_def gpt_branch_def
        split_run_js_split Let_def)
  then show ?thesis by simp
qed

theorem tokenizeText_total_pure_witness:
  "tokenizeText_run \<lparr>ui_text = str ''abc'', ui_selectedModel = str ''Claude-3'', ui_showText = True, ui_tokens = []\<rparr>
     (String (str ''Hi, you?'')) (str ''GPT-4'') =
   Some (Inr [\<lparr>token_id = 1, token_text = str ''Hi''\<rparr>, \<lparr>token_id = 2, token_text = str '',''\<rparr>,
       \<lparr>token_id = 3, token_text = str ''you''\<rparr>, \<lparr>token_id = 4, token_text = str ''?''\<rparr>],
     \<lparr>ui_text = str ''abc'', ui_selectedModel = str ''Claude-3'', ui_showText = True, ui_tokens = []\<rparr>)"
proof -
  have m: "str ''GPT-4'' \<noteq> str ''Claude-3''"
    by (simp add: str_def)
  have v: "tokenizeText (str ''Hi, you?'') (str ''GPT-4'') =
      [\<lparr>token_id = 1, token_text = str ''Hi''\<rparr>, \<lparr>token_id = 2, token_text = str '',''\<rparr>,
       \<lparr>token_id = 3, token_text = str ''you''\<rparr>, \<lparr>token_id = 4, token_text = str ''?''\<rparr>]"
    using m
    by (simp add: tokenizeText_def claude3_branch_def gpt_branch_def js_split_def)
      (simp add: str_def split_loop_sep_Cons gpt_part_def push_token_def trim_def space_defs)
  show ?thesis
    using tokenizeText_total_pure [of _ "str ''Hi, you?''" "str ''GPT-4''"] v by simp
qed

text \<open>
  C8. In the network-backed variant the returned promise is always fulfilled, never
  rejected. When the remote call fails (\<open>fetch\<close> rejects, the response is not ok,
  \<open>response.json()\<close> rejects, or the parsed body has no \<open>tokens\<close> to read: reading it
  throws, or gives \<open>undefined\<close> or another falsy value) it is fulfilled with the empty
  array.
\<close>

theorem remote_failure_gives_empty:
  assumes "outcome = FetchRejected \<or> (\<exists>body. outcome = Response False body) \<or>
      (\<exists>e. outcome = Response True (BodyRejected e)) \<or>
      (\<exists>data. outcome = Response True (Json data) \<and>
         (case get_tokens data of Inl e \<Rightarrow> True | Inr tokens \<Rightarrow> \<not> truthy tokens))"
  shows "fst (tokenizeText_remote inputText model outcome st) = Inr (Array []) \<and>
    (\<forall>outcome'. \<exists>tokens. fst (tokenizeText_remote inputText model outcome' st) = Inr tokens)"
proof -
  have "try_block outcome = Inr (Array []) \<or> (\<exists>e. try_block outcome = Inl e)"
    using assms
  proof (elim disjE exE conjE)
    assume "outcome = FetchRejected"
    then show ?thesis by (simp add: try_block_def)
  next
    fix body
    assume "outcome = Response False body"
    then show ?thesis by (simp add: try_block_def)
  next
    fix e
    assume "outcome = Response True (BodyRejected e)"
    then show ?thesis by (simp add: try_block_def)
  next
    fix data
    assume "outcome = Response True (Json data)"
      and "case get_tokens data of Inl e \<Rightarrow> True | Inr tokens \<Rightarrow> \<not> truthy tokens"
    then show ?thesis
      by (cases "get_tokens data") (simp_all add: try_block_def)
  qed
  then have "fst (tokenizeText_remote inputText model outcome st) = Inr (Array [])"
    by (auto simp: tokenizeText_remote_def Let_def)
  moreover have "\<exists>tokens. fst (tokenizeText_remote inputText model outcome' st) = Inr tokens"
    for outcome'
    by (cases "try_block outcome'") (simp_all add: tokenizeText_remote_def Let_def)
  ultimately show ?thesis by blast
qed

theorem remote_failure_gives_empty_witness:
  "fst (tokenizeText_remote (str ''hi'') (str ''GPT-4'') FetchRejected
      \<lparr>loading = False, console_errors = []\<rparr>) = Inr (Array []) \<and>
   fst (tokenizeText_remote (str ''hi'') (str ''GPT-4'')
      (Response False (Json (Object [(str ''tokens'', Array [String (str ''hi'')])])))
      \<lparr>loading = False, console_errors = []\<rparr>) = Inr (Array []) \<and>
   fst (tokenizeText_remote (str ''hi'') (str ''GPT-4'') (Response True (BodyRejected SyntaxError))
      \<lparr>loading = False, console_errors = []\<rparr>) = Inr (Array []) \<and>
   get_tokens (Object [(str ''error'', String (str ''no''))]) = Inr Undefined \<and>
   fst (tokenizeText_remote (str ''hi'') (str ''GPT-4'')
      (Response True (Json (Object [(str ''error'', String (str ''no''))])))
      \<lparr>loading = False, console_errors = []\<rparr>) = Inr (Array [])"
proof -
  have g: "get_tokens (Object [(str ''error'', String (str ''no''))]) = Inr Undefined"
    by (simp add: get_tokens_def str_def)
  show ?thesis
    using remote_failure_gives_empty [of FetchRejected]
      remote_failure_gives_empty [of "Response False (Json (Object [(str ''tokens'', Array [String (str ''hi'')])]))"]
      remote_failure_gives_empty [of "Response True (BodyRejected SyntaxError)"]
      remote_failure_gives_empty [of "Response True (Json (Object [(str ''error'', String (str ''no''))]))"]
      g
    by (simp add: truthy_def)
qed

text \<open>
  C9. Two models that both differ from \<open>"Claude-3"\<close> give the same tokens on every
  input: the model matters only through the comparison with that literal.
\<close>

theorem model_only_by_equality:
  "m1 \<noteq> str ''Claude-3'' \<Longrightarrow> m2 \<noteq> str ''Claude-3'' \<Longrightarrow>
   tokenizeText inputText m1 = tokenizeText inputText m2"
  by (simp add: tokenizeText_def claude3_branch_def gpt_branch_def)

theorem model_only_by_equality_witness:
  "str ''GPT-4'' \<noteq> str ''Claude-3'' \<and> str ''GPT-3.5-Turbo'' \<noteq> str ''Claude-3'' \<and>
   tokenizeText (str ''Hi, you?'') (str ''GPT-4'') =
     tokenizeText (str ''Hi, you?'') (str ''GPT-3.5-Turbo'')"
proof -
  have m1: "str ''GPT-4'' \<noteq> str ''Claude-3''"
    by (simp add: str_def)
  have m2: "str ''GPT-3.5-Turbo'' \<noteq> str ''Claude-3''"
    by (simp add: str_def)
  show ?thesis
    using model_only_by_equality [OF m1 m2, of "str ''Hi, you?''"] m1 m2 by simp
qed

text \<open>
  C10. In the Claude-3 branch, an input that starts or ends with a space character and
  whose trim is not empty (such as \<open>" hi"\<close>) gives a token with the empty text: the
  split yields an empty fragment before a leading run, or after a trailing run, and the
  branch keeps it.
\<close>

theorem claude3_empty_token:
  assumes "trim inputText \<noteq> []"
    and "is_space (hd inputText) \<or> is_space (last inputText)"
  shows "\<exists>t\<in>set (tokenizeText inputText (str ''Claude-3'')). token_text t = []"
proof -
  have ne: "inputText \<noteq> []" using assms(1) by (auto simp: trim_def)
  then obtain c cs where ic: "inputText = c # cs" by (cases inputText) auto
  have "[] \<in> set (split_loop re_ws [] inputText)"
  proof (cases "is_space (hd inputText)")
    case True
    then show ?thesis using ic by (simp add: split_loop_ws_Cons)
  next
    case False
    then show ?thesis using assms(2) ne by (simp add: split_loop_ws_trailing)
  qed
  then have "[] \<in> set (js_split re_ws inputText)"
    using ne by (simp add: js_split_def)
  then have "[] \<in> set (map token_text (tokenizeText inputText (str ''Claude-3'')))"
    using assms(1) by (force simp: tokenizeText_def claude3_branch_def gpt_branch_def texts_fold_claude_word)
  then obtain t where "t \<in> set (tokenizeText inputText (str ''Claude-3''))" and "[] = token_text t"
    unfolding set_map by (rule imageE)
  then show ?thesis by (intro bexI [of _ t]) simp_all
qed

theorem claude3_empty_token_witness:
  "trim (str '' hi'') \<noteq> [] \<and> is_space (hd (str '' hi'')) \<and>
   (\<exists>t\<in>set (tokenizeText (str '' hi'') (str ''Claude-3'')). token_text t = [])"
proof -
  have t: "trim (str '' hi'') \<noteq> []"
    by (simp add: str_def trim_def space_defs)
  have s: "is_space (hd (str '' hi''))"
    by (simp add: str_def space_defs)
  show ?thesis
    using claude3_empty_token [OF t disjI1 [OF s]] t s by simp
qed

end
